theory Spec2Isabelle
  imports Main "HOL-Library.Word"
begin

section \<open>Sequence contract\<close>

text \<open>
  The generators consume their inputs through \<^verbatim>\<open>std::begin\<close>, \<^verbatim>\<open>std::end\<close>,
  \<^verbatim>\<open>++it\<close>, \<^verbatim>\<open>*it\<close> and \<^verbatim>\<open>it != end\<close> only. A container is a list; a position marker
  is the container it points into together with a position. Incrementing is total in
  the model (the source leaves incrementing past the end undefined). Dereferencing a
  marker that is not before the end is undefined in the source; the model returns
  \<open>RetPastEnd\<close> there, so that such a read is visible.
\<close>

text \<open>
  Members are named as in the source without the trailing underscore (\<^verbatim>\<open>val_\<close> is
  \<open>val\<close>); where two classes share a member name the later one carries a prefix.
  \<^verbatim>\<open>int64_t\<close> is a 64-bit word: \<open>+\<close> and \<open>*\<close> wrap around, \<open><s\<close> compares as signed.
  Signed overflow is undefined in the source; the model gives it the two's-complement
  result.
\<close>

type_synonym int64_t = "64 word"

record 'a iterator =
  seq :: "'a list"
  pos :: nat

text \<open>
  What a \<^verbatim>\<open>decltype(auto) get<N>()\<close> can hand back: the index, a dereferenced
  element, nothing at all (no \<^verbatim>\<open>return\<close> is instantiated, the return type is
  \<^verbatim>\<open>void\<close>), or the dereference of a marker that is not before its end.
\<close>

datatype 'a ret = RetIdx int64_t | RetElem 'a | RetVoid | RetPastEnd

definition std_begin :: "'a list \<Rightarrow> 'a iterator" where
  "std_begin xs = \<lparr>seq = xs, pos = 0\<rparr>"

definition std_end :: "'a list \<Rightarrow> 'a iterator" where
  "std_end xs = \<lparr>seq = xs, pos = length xs\<rparr>"

definition iter_incr :: "'a iterator \<Rightarrow> 'a iterator" where
  "iter_incr it = it\<lparr>pos := Suc (pos it)\<rparr>"

definition iter_neq :: "'a iterator \<Rightarrow> 'a iterator \<Rightarrow> bool" where
  "iter_neq a b = (pos a \<noteq> pos b)"

definition iter_deref :: "'a iterator \<Rightarrow> 'a ret" where
  "iter_deref it = (if pos it < length (seq it) then RetElem (seq it ! pos it) else RetPastEnd)"

section \<open>Iterator/loop bridge\<close>

text \<open>
  Modelled from the spec: \<^verbatim>\<open>generator_iterator.h\<close> (\<^verbatim>\<open>GeneratorIterator\<close>,
  \<^verbatim>\<open>GeneratorEnd\<close>) is included by every header but is not among the sources. The
  spec (4.2 and the control flow of section 2) has the bridge test "has more",
  dereference to "current", run the loop body, call "advance", and repeat until
  "has more" is false. \<open>for_each\<close> is that ranged-for loop, collecting what the body
  sees; a loop that never ends is \<open>None\<close>.
\<close>

partial_function (option) for_each ::
  "('g \<Rightarrow> bool) \<Rightarrow> ('g \<Rightarrow> 'v) \<Rightarrow> ('g \<Rightarrow> 'g) \<Rightarrow> 'g \<Rightarrow> 'v list option" where
  "for_each has_more current advance g =
     (if has_more g
      then Option.bind (for_each has_more current advance (advance g))
             (\<lambda>rest. Some (current g # rest))
      else Some [])"

declare for_each.simps [code]

text \<open>
  The body of a member function, statement by statement: an assignment to the object
  followed by the rest of the body, or the final \<^verbatim>\<open>return\<close> of an expression over the
  object. Running a body gives the returned value and the object after the call;
  \<open>writes\<close> counts the assignments of a body.
\<close>

datatype ('g, 'v) body = Return "'g \<Rightarrow> 'v" | Assign "'g \<Rightarrow> 'g" "('g, 'v) body"

fun run_body :: "('g, 'v) body \<Rightarrow> 'g \<Rightarrow> 'v \<times> 'g" where
  "run_body (Return e) g = (e g, g)"
| "run_body (Assign u rest) g = run_body rest (u g)"

fun writes :: "('g, 'v) body \<Rightarrow> nat" where
  "writes (Return e) = 0"
| "writes (Assign u rest) = Suc (writes rest)"

text \<open>
  The protocol as a machine driven by a caller: a call runs the body of
  \<^verbatim>\<open>operator*\<close>, \<^verbatim>\<open>operator bool\<close> or \<^verbatim>\<open>operator++\<close> and returns its reply and the
  generator after the call.
\<close>

datatype call = Current | HasMore | Advance

datatype 'v reply = Value 'v | Flag bool | Done

definition gen_call ::
  "('g, bool) body \<Rightarrow> ('g, 'v) body \<Rightarrow> ('g, 'g) body \<Rightarrow> call \<Rightarrow> 'g \<Rightarrow> 'v reply \<times> 'g" where
  "gen_call has_more current advance c g =
     (case c of
        Current \<Rightarrow> (case run_body current g of (v, g') \<Rightarrow> (Value v, g'))
      | HasMore \<Rightarrow> (case run_body has_more g of (b, g') \<Rightarrow> (Flag b, g'))
      | Advance \<Rightarrow> (Done, snd (run_body advance g)))"

fun run_calls :: "(call \<Rightarrow> 'g \<Rightarrow> 'r \<times> 'g) \<Rightarrow> call list \<Rightarrow> 'g \<Rightarrow> 'r list \<times> 'g" where
  "run_calls f [] g = ([], g)"
| "run_calls f (c # cs) g =
     (case f c g of (r, g') \<Rightarrow>
        (case run_calls f cs g' of (rs, g'') \<Rightarrow> (r # rs, g'')))"

section \<open>Range generator (utilities/range.h)\<close>

record RangeImpl =
  val :: int64_t
  step :: int64_t
  comparison_mod :: int64_t
  modded_end :: int64_t

definition RangeImpl_ctor :: "int64_t \<Rightarrow> int64_t \<Rightarrow> int64_t \<Rightarrow> RangeImpl" where
  "RangeImpl_ctor b e s =
     (let cm = (if s <s 0 then - 1 else 1)
      in \<lparr>val = b, step = s, comparison_mod = cm, modded_end = e * cm\<rparr>)"

definition RangeImpl_deref :: "RangeImpl \<Rightarrow> int64_t" where
  "RangeImpl_deref g = val g"

definition RangeImpl_incr :: "RangeImpl \<Rightarrow> RangeImpl" where
  "RangeImpl_incr g = g\<lparr>val := val g + step g\<rparr>"

definition RangeImpl_bool :: "RangeImpl \<Rightarrow> bool" where
  "RangeImpl_bool g = (val g * comparison_mod g <s modded_end g)"

definition range1 :: "int64_t \<Rightarrow> RangeImpl" where
  "range1 e = RangeImpl_ctor 0 e 1"

definition range2 :: "int64_t \<Rightarrow> int64_t \<Rightarrow> RangeImpl" where
  "range2 b e = RangeImpl_ctor b e 1"

definition range3 :: "int64_t \<Rightarrow> int64_t \<Rightarrow> int64_t \<Rightarrow> RangeImpl" where
  "range3 b e s = RangeImpl_ctor b e s"

definition range_loop :: "RangeImpl \<Rightarrow> int64_t list option" where
  "range_loop g = for_each RangeImpl_bool RangeImpl_deref RangeImpl_incr g"

text \<open>
  The three operator bodies as written: \<^verbatim>\<open>{ return val_; }\<close>,
  \<^verbatim>\<open>{ val_ += step_; return *this; }\<close> and
  \<^verbatim>\<open>{ return (val_ * comparison_mod_) < modded_end_; }\<close>.
\<close>

definition RangeImpl_star_body :: "(RangeImpl, int64_t) body" where
  "RangeImpl_star_body = Return val"

definition RangeImpl_incr_body :: "(RangeImpl, RangeImpl) body" where
  "RangeImpl_incr_body = Assign (\<lambda>g. g\<lparr>val := val g + step g\<rparr>) (Return (\<lambda>g. g))"

definition RangeImpl_bool_body :: "(RangeImpl, bool) body" where
  "RangeImpl_bool_body = Return (\<lambda>g. val g * comparison_mod g <s modded_end g)"

definition range_call :: "call \<Rightarrow> RangeImpl \<Rightarrow> int64_t reply \<times> RangeImpl" where
  "range_call = gen_call RangeImpl_bool_body RangeImpl_star_body RangeImpl_incr_body"

text \<open>
  The progression the spec describes, over the integers: \<open>begin, begin + step, ...\<close>
  while strictly below \<open>end\<close> for a positive step, strictly above \<open>end\<close> for a
  negative one.
\<close>

function range_spec :: "int \<Rightarrow> int \<Rightarrow> int \<Rightarrow> int list" where
  "range_spec b e s =
     (if 0 < s \<and> b < e then b # range_spec (b + s) e s
      else if s < 0 \<and> e < b then b # range_spec (b + s) e s
      else [])"
  by pat_completeness auto
termination
  by (relation "measure (\<lambda>(b, e, s). nat (if 0 < s then e - b else b - e))") auto

declare range_spec.simps [simp del]

text \<open>
  The first value of the progression that is not yielded: the value the generator
  holds when the loop ends.
\<close>

definition range_stop :: "int \<Rightarrow> int \<Rightarrow> int \<Rightarrow> int" where
  "range_stop b e s = b + int (length (range_spec b e s)) * s"

section \<open>Enumerate adapter (utilities/enumerate.h)\<close>

record 'a EnumerateState =
  idx :: int64_t
  iter :: "'a iterator"

record 'a enumerate =
  enum_iterable :: "'a list"
  starting_idx :: int64_t
  state :: "'a EnumerateState"

definition enumerate_ctor :: "'a list \<Rightarrow> int64_t \<Rightarrow> 'a enumerate" where
  "enumerate_ctor xs s =
     \<lparr>enum_iterable = xs, starting_idx = s, state = \<lparr>idx = s, iter = std_begin xs\<rparr>\<rparr>"

definition enumerate_ctor1 :: "'a list \<Rightarrow> 'a enumerate" where
  "enumerate_ctor1 xs = enumerate_ctor xs 0"

definition enumerate_deref :: "'a enumerate \<Rightarrow> 'a EnumerateState" where
  "enumerate_deref g = state g"

definition enumerate_incr :: "'a enumerate \<Rightarrow> 'a enumerate" where
  "enumerate_incr g =
     g\<lparr>state := \<lparr>idx = idx (state g) + 1, iter = iter_incr (iter (state g))\<rparr>\<rparr>"

definition enumerate_bool :: "'a enumerate \<Rightarrow> bool" where
  "enumerate_bool g = iter_neq (iter (state g)) (std_end (enum_iterable g))"

definition EnumerateState_get :: "nat \<Rightarrow> 'a EnumerateState \<Rightarrow> 'a ret" where
  "EnumerateState_get N s =
     (if N = 0 then RetIdx (idx s)
      else if N = 1 then iter_deref (iter s)
      else RetVoid)"

text \<open>The structured binding \<^verbatim>\<open>auto&& [index, value]\<close> (\<^verbatim>\<open>tuple_size\<close> is 2).\<close>

definition EnumerateState_bind :: "'a EnumerateState \<Rightarrow> 'a ret \<times> 'a ret" where
  "EnumerateState_bind s = (EnumerateState_get 0 s, EnumerateState_get 1 s)"

definition enumerate_loop :: "'a enumerate \<Rightarrow> ('a ret \<times> 'a ret) list option" where
  "enumerate_loop g =
     for_each enumerate_bool (EnumerateState_bind \<circ> enumerate_deref) enumerate_incr g"

text \<open>
  The three operator bodies as written: \<^verbatim>\<open>{ return state_; }\<close>,
  \<^verbatim>\<open>{ ++state_.idx_; ++state_.iter_; return *this; }\<close> and
  \<^verbatim>\<open>{ return state_.iter_ != std::end(iterable_); }\<close>.
\<close>

definition enumerate_star_body :: "('a enumerate, 'a EnumerateState) body" where
  "enumerate_star_body = Return state"

definition enumerate_incr_body :: "('a enumerate, 'a enumerate) body" where
  "enumerate_incr_body =
     Assign (\<lambda>g. g\<lparr>state := (state g)\<lparr>idx := idx (state g) + 1\<rparr>\<rparr>)
       (Assign (\<lambda>g. g\<lparr>state := (state g)\<lparr>iter := iter_incr (iter (state g))\<rparr>\<rparr>)
          (Return (\<lambda>g. g)))"

definition enumerate_bool_body :: "('a enumerate, bool) body" where
  "enumerate_bool_body = Return (\<lambda>g. iter_neq (iter (state g)) (std_end (enum_iterable g)))"

definition enumerate_call :: "call \<Rightarrow> 'a enumerate \<Rightarrow> 'a EnumerateState reply \<times> 'a enumerate" where
  "enumerate_call = gen_call enumerate_bool_body enumerate_star_body enumerate_incr_body"

section \<open>Enumerator (include/util/gen/enumerator.h)\<close>

record 'a EnumeratorState =
  gen_idx :: int64_t
  gen_iter :: "'a iterator"

record 'a EnumeratorImpl =
  gen_iterable :: "'a list"
  gen_starting_idx :: int64_t
  gen_state :: "'a EnumeratorState"

definition EnumeratorImpl_ctor :: "'a list \<Rightarrow> int64_t \<Rightarrow> 'a EnumeratorImpl" where
  "EnumeratorImpl_ctor xs s =
     \<lparr>gen_iterable = xs, gen_starting_idx = s,
      gen_state = \<lparr>gen_idx = s, gen_iter = std_begin xs\<rparr>\<rparr>"

definition EnumeratorImpl_ctor1 :: "'a list \<Rightarrow> 'a EnumeratorImpl" where
  "EnumeratorImpl_ctor1 xs = EnumeratorImpl_ctor xs 0"

definition EnumeratorImpl_deref :: "'a EnumeratorImpl \<Rightarrow> 'a EnumeratorState" where
  "EnumeratorImpl_deref g = gen_state g"

definition EnumeratorImpl_incr :: "'a EnumeratorImpl \<Rightarrow> 'a EnumeratorImpl" where
  "EnumeratorImpl_incr g =
     g\<lparr>gen_state :=
         \<lparr>gen_idx = gen_idx (gen_state g) + 1,
          gen_iter = iter_incr (gen_iter (gen_state g))\<rparr>\<rparr>"

definition EnumeratorImpl_bool :: "'a EnumeratorImpl \<Rightarrow> bool" where
  "EnumeratorImpl_bool g = iter_neq (gen_iter (gen_state g)) (std_end (gen_iterable g))"

definition EnumeratorState_get :: "nat \<Rightarrow> 'a EnumeratorState \<Rightarrow> 'a ret" where
  "EnumeratorState_get N s =
     (if N = 0 then RetIdx (gen_idx s)
      else if N = 1 then iter_deref (gen_iter s)
      else RetVoid)"

definition EnumeratorState_bind :: "'a EnumeratorState \<Rightarrow> 'a ret \<times> 'a ret" where
  "EnumeratorState_bind s = (EnumeratorState_get 0 s, EnumeratorState_get 1 s)"

definition Enumerator_loop :: "'a EnumeratorImpl \<Rightarrow> ('a ret \<times> 'a ret) list option" where
  "Enumerator_loop g =
     for_each EnumeratorImpl_bool (EnumeratorState_bind \<circ> EnumeratorImpl_deref)
       EnumeratorImpl_incr g"

text \<open>
  The two enumerate classes have the same members; \<open>as_Enumerator\<close> reads a
  generator of the one as a generator of the other, member by member.
\<close>

definition as_Enumerator :: "'a enumerate \<Rightarrow> 'a EnumeratorImpl" where
  "as_Enumerator g =
     \<lparr>gen_iterable = enum_iterable g, gen_starting_idx = starting_idx g,
      gen_state = \<lparr>gen_idx = idx (state g), gen_iter = iter (state g)\<rparr>\<rparr>"

section \<open>Zip adapter (single header/utilities.h)\<close>

text \<open>
  \<^verbatim>\<open>ZipStorage<IDX, Iterables...>\<close> and \<^verbatim>\<open>ZipState<IDX, Iterables...>\<close> are recursive
  templates with one specialisation for the last input and one for an input followed
  by more. The element types of the inputs are one type \<open>'a\<close> here (a sum type where
  they differ). The template parameter \<^verbatim>\<open>IDX\<close> is an argument of \<open>ZipState_get\<close>;
  the outermost bundle has \<^verbatim>\<open>IDX = 0\<close>.
\<close>

datatype 'a ZipStorage =
    ZipStorage1 (iterable: "'a list")
  | ZipStorageN (iterable: "'a list") (next_storage: "'a ZipStorage")

datatype 'a ZipState =
    ZipState1 (iterator: "'a iterator")
  | ZipStateN (iterator: "'a iterator") (next_state: "'a ZipState")

definition ZipStorage_begin :: "'a ZipStorage \<Rightarrow> 'a iterator" where
  "ZipStorage_begin sto = std_begin (iterable sto)"

definition ZipStorage_end :: "'a ZipStorage \<Rightarrow> 'a iterator" where
  "ZipStorage_end sto = std_end (iterable sto)"

fun ZipState_ctor :: "'a ZipStorage \<Rightarrow> 'a ZipState" where
  "ZipState_ctor (ZipStorage1 xs) = ZipState1 (ZipStorage_begin (ZipStorage1 xs))"
| "ZipState_ctor (ZipStorageN xs ns) =
     ZipStateN (ZipStorage_begin (ZipStorageN xs ns)) (ZipState_ctor ns)"

fun ZipState_incr :: "'a ZipState \<Rightarrow> 'a ZipState" where
  "ZipState_incr (ZipState1 it) = ZipState1 (iter_incr it)"
| "ZipState_incr (ZipStateN it ns) = ZipStateN (iter_incr it) (ZipState_incr ns)"

text \<open>
  A state and a storage of different shapes cannot meet: the template arguments of
  \<^verbatim>\<open>ZipState\<close> and of its \<^verbatim>\<open>Storage\<close> are the same. The last equation only makes
  the function total.
\<close>

fun can_advance :: "'a ZipState \<Rightarrow> 'a ZipStorage \<Rightarrow> bool" where
  "can_advance (ZipState1 it) (ZipStorage1 xs) = iter_neq it (ZipStorage_end (ZipStorage1 xs))"
| "can_advance (ZipStateN it ns) (ZipStorageN xs nst) =
     (iter_neq it (ZipStorage_end (ZipStorageN xs nst)) \<and> can_advance ns nst)"
| "can_advance _ _ = False"

fun ZipState_get :: "nat \<Rightarrow> nat \<Rightarrow> 'a ZipState \<Rightarrow> 'a ret" where
  "ZipState_get N IDX (ZipState1 it) = (if N = IDX then iter_deref it else RetVoid)"
| "ZipState_get N IDX (ZipStateN it ns) =
     (if N = IDX then iter_deref it else ZipState_get N (Suc IDX) ns)"

text \<open>\<^verbatim>\<open>tuple_size\<close> of a \<^verbatim>\<open>ZipState<0, Iterables...>\<close> is \<^verbatim>\<open>sizeof...(Iterables)\<close>.\<close>

fun ZipState_size :: "'a ZipState \<Rightarrow> nat" where
  "ZipState_size (ZipState1 it) = 1"
| "ZipState_size (ZipStateN it ns) = Suc (ZipState_size ns)"

text \<open>The structured binding \<^verbatim>\<open>auto&& [v0, ..., vk]\<close> of the outermost bundle.\<close>

definition ZipState_bind :: "'a ZipState \<Rightarrow> 'a ret list" where
  "ZipState_bind s = map (\<lambda>k. ZipState_get k 0 s) [0..<ZipState_size s]"

record 'a zip =
  storage :: "'a ZipStorage"
  zip_state :: "'a ZipState"

definition zip_ctor :: "'a ZipStorage \<Rightarrow> 'a zip" where
  "zip_ctor sto = \<lparr>storage = sto, zip_state = ZipState_ctor sto\<rparr>"

definition zip_deref :: "'a zip \<Rightarrow> 'a ZipState" where
  "zip_deref z = zip_state z"

definition zip_incr :: "'a zip \<Rightarrow> 'a zip" where
  "zip_incr z = z\<lparr>zip_state := ZipState_incr (zip_state z)\<rparr>"

definition zip_bool :: "'a zip \<Rightarrow> bool" where
  "zip_bool z = can_advance (zip_state z) (storage z)"

definition zip_loop :: "'a zip \<Rightarrow> 'a ret list list option" where
  "zip_loop z = for_each zip_bool (ZipState_bind \<circ> zip_deref) zip_incr z"

text \<open>
  The three operator bodies as written: \<^verbatim>\<open>{ return state_; }\<close>,
  \<^verbatim>\<open>{ ++state_; return *this; }\<close> and \<^verbatim>\<open>{ return state_.can_advance(storage_); }\<close>.
\<close>

definition zip_star_body :: "('a zip, 'a ZipState) body" where
  "zip_star_body = Return zip_state"

definition zip_incr_body :: "('a zip, 'a zip) body" where
  "zip_incr_body = Assign (\<lambda>z. z\<lparr>zip_state := ZipState_incr (zip_state z)\<rparr>) (Return (\<lambda>z. z))"

definition zip_bool_body :: "('a zip, bool) body" where
  "zip_bool_body = Return (\<lambda>z. can_advance (zip_state z) (storage z))"

definition zip_call :: "call \<Rightarrow> 'a zip \<Rightarrow> 'a ZipState reply \<times> 'a zip" where
  "zip_call = gen_call zip_bool_body zip_star_body zip_incr_body"

text \<open>The inputs and the markers of a bundle, outermost first.\<close>

fun iterables :: "'a ZipStorage \<Rightarrow> 'a list list" where
  "iterables (ZipStorage1 xs) = [xs]"
| "iterables (ZipStorageN xs ns) = xs # iterables ns"

fun markers :: "'a ZipState \<Rightarrow> 'a iterator list" where
  "markers (ZipState1 it) = [it]"
| "markers (ZipStateN it ns) = it # markers ns"

text \<open>
  The states a caller who keeps the protocol can reach: from construction, by
  \<^verbatim>\<open>operator++\<close> while \<^verbatim>\<open>operator bool\<close> holds.
\<close>

inductive zip_reachable :: "'a ZipStorage \<Rightarrow> 'a zip \<Rightarrow> bool" for sto where
  zip_reachable_ctor: "zip_reachable sto (zip_ctor sto)"
| zip_reachable_incr: "zip_reachable sto z \<Longrightarrow> zip_bool z \<Longrightarrow> zip_reachable sto (zip_incr z)"

code_pred zip_reachable .

section \<open>The loop bridge: unfolding, divergence, finite runs\<close>

lemma for_each_stop: "\<not> hm g \<Longrightarrow> for_each hm cur adv g = Some []"
  by (subst for_each.simps) simp

lemma for_each_step:
  "hm g \<Longrightarrow> for_each hm cur adv g =
     Option.bind (for_each hm cur adv (adv g)) (\<lambda>rest. Some (cur g # rest))"
  by (subst for_each.simps) simp

lemma for_each_None:
  assumes "I g" and step: "\<And>g. I g \<Longrightarrow> hm g \<and> I (adv g)"
  shows "for_each hm cur adv g = None"
proof (rule ccontr)
  assume "for_each hm cur adv g \<noteq> None"
  then obtain y where y: "for_each hm cur adv g = Some y" by auto
  have "hm = hm \<and> cur = cur \<and> adv = adv \<longrightarrow> \<not> I g"
  proof (rule for_each.raw_induct
      [where P = "\<lambda>h c a x r. h = hm \<and> c = cur \<and> a = adv \<longrightarrow> \<not> I x", OF _ y])
    fix f :: "('a \<Rightarrow> bool) \<Rightarrow> ('a \<Rightarrow> 'b) \<Rightarrow> ('a \<Rightarrow> 'a) \<Rightarrow> 'a \<Rightarrow> 'b list option"
    fix h c a x r
    assume IH: "\<And>h c a x r. f h c a x = Some r \<Longrightarrow> h = hm \<and> c = cur \<and> a = adv \<longrightarrow> \<not> I x"
      and body: "(if h x then Option.bind (f h c a (a x)) (\<lambda>rest. Some (c x # rest))
                  else Some []) = Some r"
    show "h = hm \<and> c = cur \<and> a = adv \<longrightarrow> \<not> I x"
    proof (intro impI notI)
      assume eq: "h = hm \<and> c = cur \<and> a = adv" and Ix: "I x"
      from step [OF Ix] have hx: "hm x" and Iax: "I (adv x)" by simp_all
      from body eq hx obtain r' where "f hm cur adv (adv x) = Some r'"
        by (auto simp: bind_eq_Some_conv)
      from IH [OF this] Iax show False by simp
    qed
  qed
  with assms(1) show False by simp
qed

lemma for_each_iterate:
  assumes "\<And>k. k < n \<Longrightarrow> hm ((adv ^^ k) g)" and "\<not> hm ((adv ^^ n) g)"
  shows "for_each hm cur adv g = Some (map (\<lambda>k. cur ((adv ^^ k) g)) [0..<n])"
  using assms
proof (induction n arbitrary: g)
  case 0
  then show ?case by (simp add: for_each_stop)
next
  case (Suc n)
  have hg: "hm g" using Suc.prems(1) [of 0] by simp
  have a: "\<And>k. k < n \<Longrightarrow> hm ((adv ^^ k) (adv g))"
    using Suc.prems(1) by (metis Suc_less_eq funpow_Suc_right comp_apply)
  have b: "\<not> hm ((adv ^^ n) (adv g))"
    using Suc.prems(2) by (simp add: funpow_swap1)
  have "map (\<lambda>k. cur ((adv ^^ k) g)) [0..<Suc n]
        = cur g # map (\<lambda>k. cur ((adv ^^ k) (adv g))) [0..<n]"
    by (simp add: upt_conv_Cons map_Suc_upt [symmetric] funpow_swap1 del: upt_Suc)
  then show ?case
    using Suc.IH [OF a b] hg by (simp add: for_each_step del: upt_Suc)
qed

section \<open>Range: 64-bit arithmetic and the progression\<close>

lemma sint_in_range64: "- (2 ^ 63) \<le> sint (w :: int64_t) \<and> sint w < 2 ^ 63"
  using sint_ge [of w] sint_lt [of w] by simp

lemma sint_add64:
  fixes a b :: int64_t
  assumes "- (2 ^ 63) \<le> sint a + sint b" and "sint a + sint b < 2 ^ 63"
  shows "sint (a + b) = sint a + sint b"
  using assms by (simp add: sint_word_ariths signed_take_bit_int_eq_self)

lemma sint_neg64:
  fixes a :: int64_t
  assumes "- (2 ^ 63) < sint a"
  shows "sint (- a) = - sint a"
  using assms sint_in_range64 [of a]
  by (simp add: sint_word_ariths signed_take_bit_int_eq_self)

lemma word_of_int_sint64: "word_of_int (sint (w :: int64_t)) = w"
  by simp

lemma RangeImpl_bool_asc:
  "comparison_mod g = 1 \<Longrightarrow> RangeImpl_bool g \<longleftrightarrow> sint (val g) < sint (modded_end g)"
  by (simp add: RangeImpl_bool_def word_sless_alt)

lemma RangeImpl_bool_desc:
  assumes "comparison_mod g = - 1" and "modded_end g = e * (- 1)"
    and "- (2 ^ 63) < sint (val g)" and "- (2 ^ 63) < sint e"
  shows "RangeImpl_bool g \<longleftrightarrow> sint e < sint (val g)"
  using assms by (simp add: RangeImpl_bool_def word_sless_alt sint_neg64)

lemma range_spec_asc_step:
  "0 < s \<Longrightarrow> b < e \<Longrightarrow> range_spec b e s = b # range_spec (b + s) e s"
  by (subst range_spec.simps) simp

lemma range_spec_asc_stop: "0 < s \<Longrightarrow> \<not> b < e \<Longrightarrow> range_spec b e s = []"
  by (subst range_spec.simps) simp

lemma range_spec_desc_step:
  "s < 0 \<Longrightarrow> e < b \<Longrightarrow> range_spec b e s = b # range_spec (b + s) e s"
  by (subst range_spec.simps) simp

lemma range_spec_desc_stop: "s < 0 \<Longrightarrow> \<not> e < b \<Longrightarrow> range_spec b e s = []"
  by (subst range_spec.simps) simp

lemma range_stop_asc_step: "0 < s \<Longrightarrow> b < e \<Longrightarrow> range_stop b e s = range_stop (b + s) e s"
  by (simp add: range_stop_def range_spec_asc_step algebra_simps)

lemma range_stop_desc_step: "s < 0 \<Longrightarrow> e < b \<Longrightarrow> range_stop b e s = range_stop (b + s) e s"
  by (simp add: range_stop_def range_spec_desc_step algebra_simps)

lemma range_stop_asc_ge: "0 < s \<Longrightarrow> b \<le> range_stop b e s"
  by (simp add: range_stop_def)

lemma range_stop_desc_le: "s < 0 \<Longrightarrow> range_stop b e s \<le> b"
  by (simp add: range_stop_def mult_nonneg_nonpos)

lemma range_stop_desc_end: "s < 0 \<Longrightarrow> range_stop b e s \<le> e"
proof (induction b e s rule: range_spec.induct)
  case (1 b e s)
  show ?case
  proof (cases "e < b")
    case True
    then show ?thesis using 1 by (simp add: range_stop_desc_step)
  next
    case False
    then show ?thesis using 1(3) by (simp add: range_stop_def range_spec_desc_stop)
  qed
qed

lemma range_loop_asc:
  fixes v s e :: int64_t
  assumes "0 < sint s" and "range_stop (sint v) (sint e) (sint s) < 2 ^ 63"
  shows "\<exists>xs. range_loop \<lparr>val = v, step = s, comparison_mod = 1, modded_end = e\<rparr> = Some xs
           \<and> map sint xs = range_spec (sint v) (sint e) (sint s)"
  using assms
proof (induction "nat (sint e - sint v)" arbitrary: v rule: less_induct)
  case less
  let ?g = "\<lparr>val = v, step = s, comparison_mod = 1, modded_end = e\<rparr>"
  show ?case
  proof (cases "sint v < sint e")
    case False
    then have "\<not> RangeImpl_bool ?g" by (simp add: RangeImpl_bool_asc)
    then have "range_loop ?g = Some []" by (simp add: range_loop_def for_each_stop)
    then show ?thesis using False less.prems by (simp add: range_spec_asc_stop)
  next
    case True
    have stop: "range_stop (sint v + sint s) (sint e) (sint s) < 2 ^ 63"
      using less.prems True by (simp add: range_stop_asc_step)
    have "sint v + sint s \<le> range_stop (sint v + sint s) (sint e) (sint s)"
      using less.prems(1) by (rule range_stop_asc_ge)
    with stop have up: "sint v + sint s < 2 ^ 63" by linarith
    have lo: "- (2 ^ 63) \<le> sint v + sint s"
      using sint_in_range64 [of v] less.prems(1) by linarith
    have sv: "sint (v + s) = sint v + sint s" using lo up by (rule sint_add64)
    have "nat (sint e - sint (v + s)) < nat (sint e - sint v)"
      using True less.prems(1) sv by linarith
    from less.hyps [OF this less.prems(1)] stop sv
    obtain ys where ys: "range_loop \<lparr>val = v + s, step = s, comparison_mod = 1, modded_end = e\<rparr> = Some ys"
      and ys': "map sint ys = range_spec (sint v + sint s) (sint e) (sint s)"
      by auto
    have "RangeImpl_bool ?g" using True by (simp add: RangeImpl_bool_asc)
    then have "range_loop ?g = Some (v # ys)"
      using ys by (simp add: range_loop_def for_each_step RangeImpl_incr_def RangeImpl_deref_def)
    then show ?thesis using ys' True less.prems(1) by (simp add: range_spec_asc_step)
  qed
qed

lemma range_loop_desc:
  fixes v s e :: int64_t
  assumes "sint s < 0" and "- (2 ^ 63) < range_stop (sint v) (sint e) (sint s)"
  shows "\<exists>xs. range_loop \<lparr>val = v, step = s, comparison_mod = - 1, modded_end = e * (- 1)\<rparr> = Some xs
           \<and> map sint xs = range_spec (sint v) (sint e) (sint s)"
  using assms
proof (induction "nat (sint v - sint e)" arbitrary: v rule: less_induct)
  case less
  let ?g = "\<lparr>val = v, step = s, comparison_mod = - 1, modded_end = e * (- 1)\<rparr>"
  have e_lo: "- (2 ^ 63) < sint e"
    using range_stop_desc_end [OF less.prems(1), of "sint v" "sint e"] less.prems(2) by linarith
  have v_lo: "- (2 ^ 63) < sint v"
    using range_stop_desc_le [OF less.prems(1), of "sint v" "sint e"] less.prems(2) by linarith
  have hm: "RangeImpl_bool ?g \<longleftrightarrow> sint e < sint v"
    using e_lo v_lo by (simp add: RangeImpl_bool_desc)
  show ?case
  proof (cases "sint e < sint v")
    case False
    then have "range_loop ?g = Some []" using hm by (simp add: range_loop_def for_each_stop)
    then show ?thesis using False less.prems by (simp add: range_spec_desc_stop)
  next
    case True
    have stop: "- (2 ^ 63) < range_stop (sint v + sint s) (sint e) (sint s)"
      using less.prems True by (simp add: range_stop_desc_step)
    have "range_stop (sint v + sint s) (sint e) (sint s) \<le> sint v + sint s"
      using less.prems(1) by (rule range_stop_desc_le)
    with stop have lo: "- (2 ^ 63) \<le> sint v + sint s" by linarith
    have up: "sint v + sint s < 2 ^ 63"
      using sint_in_range64 [of v] less.prems(1) by linarith
    have sv: "sint (v + s) = sint v + sint s" using lo up by (rule sint_add64)
    have "nat (sint (v + s) - sint e) < nat (sint v - sint e)"
      using True less.prems(1) sv by linarith
    from less.hyps [OF this less.prems(1)] stop sv
    obtain ys where ys: "range_loop \<lparr>val = v + s, step = s, comparison_mod = - 1, modded_end = e * (- 1)\<rparr> = Some ys"
      and ys': "map sint ys = range_spec (sint v + sint s) (sint e) (sint s)"
      by auto
    have "RangeImpl_bool ?g" using True hm by simp
    then have "range_loop ?g = Some (v # ys)"
      using ys by (simp add: range_loop_def for_each_step RangeImpl_incr_def RangeImpl_deref_def)
    then show ?thesis using ys' True less.prems(1) by (simp add: range_spec_desc_step)
  qed
qed

lemma sint_eq64: "sint (a :: int64_t) = sint b \<longleftrightarrow> a = b"
  by (metis word_of_int_sint64)

lemma range_spec_unit: "range_spec b e 1 = [b..e - 1]"
proof (induction b e "1::int" rule: range_spec.induct)
  case (1 b e)
  show ?case
  proof (cases "b < e")
    case True
    then show ?thesis using 1(1) by (simp add: range_spec_asc_step upto_rec1 [of b])
  next
    case False
    then show ?thesis by (simp add: range_spec_asc_stop)
  qed
qed

lemma range_spec_asc_lt: "0 < s \<Longrightarrow> x \<in> set (range_spec b e s) \<Longrightarrow> x < e"
proof (induction b e s rule: range_spec.induct)
  case (1 b e s)
  show ?case
  proof (cases "b < e")
    case True
    then show ?thesis using 1 by (auto simp: range_spec_asc_step)
  next
    case False
    then show ?thesis using 1(3,4) by (simp add: range_spec_asc_stop)
  qed
qed

lemma range_spec_desc_gt: "s < 0 \<Longrightarrow> x \<in> set (range_spec b e s) \<Longrightarrow> e < x"
proof (induction b e s rule: range_spec.induct)
  case (1 b e s)
  show ?case
  proof (cases "e < b")
    case True
    then show ?thesis using 1 by (auto simp: range_spec_desc_step)
  next
    case False
    then show ?thesis using 1(3,4) by (simp add: range_spec_desc_stop)
  qed
qed

lemma RangeImpl_ctor_asc:
  "\<not> s <s 0 \<Longrightarrow> RangeImpl_ctor b e s = \<lparr>val = b, step = s, comparison_mod = 1, modded_end = e\<rparr>"
  by (simp add: RangeImpl_ctor_def)

lemma RangeImpl_ctor_desc:
  "s <s 0 \<Longrightarrow>
   RangeImpl_ctor b e s = \<lparr>val = b, step = s, comparison_mod = - 1, modded_end = e * (- 1)\<rparr>"
  by (simp add: RangeImpl_ctor_def)

lemma range3_asc:
  fixes b e s :: int64_t
  assumes "0 <s s" and "range_stop (sint b) (sint e) (sint s) < 2 ^ 63"
  shows "\<exists>xs. range_loop (range3 b e s) = Some xs
           \<and> map sint xs = range_spec (sint b) (sint e) (sint s) \<and> (\<forall>x\<in>set xs. x <s e)"
proof -
  have s: "0 < sint s" using assms(1) by (simp add: word_sless_alt)
  then have "\<not> s <s 0" by (simp add: word_sless_alt)
  then have g: "range3 b e s = \<lparr>val = b, step = s, comparison_mod = 1, modded_end = e\<rparr>"
    by (simp add: range3_def RangeImpl_ctor_asc)
  from range_loop_asc [OF s assms(2)] g obtain xs where
    xs: "range_loop (range3 b e s) = Some xs" "map sint xs = range_spec (sint b) (sint e) (sint s)"
    by auto
  have "x <s e" if "x \<in> set xs" for x
  proof -
    from that have "sint x \<in> set (map sint xs)" by simp
    with xs(2) s show ?thesis by (simp add: word_sless_alt range_spec_asc_lt)
  qed
  with xs show ?thesis by blast
qed

lemma range3_desc:
  fixes b e s :: int64_t
  assumes "s <s 0" and "- (2 ^ 63) < range_stop (sint b) (sint e) (sint s)"
  shows "\<exists>xs. range_loop (range3 b e s) = Some xs
           \<and> map sint xs = range_spec (sint b) (sint e) (sint s) \<and> (\<forall>x\<in>set xs. e <s x)"
proof -
  have s: "sint s < 0" using assms(1) by (simp add: word_sless_alt)
  have g: "range3 b e s = \<lparr>val = b, step = s, comparison_mod = - 1, modded_end = e * (- 1)\<rparr>"
    using assms(1) by (simp add: range3_def RangeImpl_ctor_desc)
  from range_loop_desc [OF s assms(2)] g obtain xs where
    xs: "range_loop (range3 b e s) = Some xs" "map sint xs = range_spec (sint b) (sint e) (sint s)"
    by auto
  have "e <s x" if "x \<in> set xs" for x
  proof -
    from that have "sint x \<in> set (map sint xs)" by simp
    with xs(2) s show ?thesis by (simp add: word_sless_alt range_spec_desc_gt)
  qed
  with xs show ?thesis by blast
qed

lemma range_stop_unit: "0 \<le> e \<Longrightarrow> range_stop 0 e 1 = e"
  by (simp add: range_stop_def range_spec_unit)

lemma range1_yields:
  fixes e :: int64_t
  assumes "0 \<le>s e"
  shows "\<exists>xs. range_loop (range1 e) = Some xs \<and> map sint xs = [0..sint e - 1]"
proof -
  have e: "0 \<le> sint e" using assms by (simp add: word_sle_eq)
  have "range_stop (sint (0::int64_t)) (sint e) (sint (1::int64_t)) < 2 ^ 63"
    using e sint_in_range64 [of e] by (simp add: range_stop_unit)
  from range3_asc [of 1 0 e, OF _ this] show ?thesis
    by (auto simp: range1_def range3_def range_spec_unit word_sless_alt)
qed

lemma range_loop_eval_2_11_3: "range_loop (range3 2 11 3) = Some [2, 5, 8]"
  by (simp add: range_loop_def range3_def RangeImpl_ctor_def RangeImpl_bool_def
      RangeImpl_incr_def RangeImpl_deref_def for_each.simps word_sless_alt)

lemma range_loop_eval_3_7: "range_loop (range2 3 7) = Some [3, 4, 5, 6]"
  by (simp add: range_loop_def range2_def RangeImpl_ctor_def RangeImpl_bool_def
      RangeImpl_incr_def RangeImpl_deref_def for_each.simps word_sless_alt)

lemma range_loop_eval_0: "range_loop (range1 0) = Some []"
  by (simp add: range_loop_def range1_def RangeImpl_ctor_def RangeImpl_bool_def
      for_each.simps word_sless_alt)

lemma range_loop_zero_step:
  "range_loop (range3 b e 0) = (if b <s e then None else Some [])"
proof (cases "b <s e")
  case True
  have g: "range3 b e 0 = \<lparr>val = b, step = 0, comparison_mod = 1, modded_end = e\<rparr>"
    by (simp add: range3_def RangeImpl_ctor_def)
  have "for_each RangeImpl_bool RangeImpl_deref RangeImpl_incr (range3 b e 0) = None"
  proof (rule for_each_None [where I = "\<lambda>g. g = range3 b e 0"])
    show "range3 b e 0 = range3 b e 0" ..
  next
    fix g assume "g = range3 b e 0"
    then show "RangeImpl_bool g \<and> RangeImpl_incr g = range3 b e 0"
      using True by (simp add: g RangeImpl_bool_def RangeImpl_incr_def)
  qed
  then show ?thesis using True by (simp add: range_loop_def)
next
  case False
  then have "\<not> RangeImpl_bool (range3 b e 0)"
    by (simp add: range3_def RangeImpl_ctor_def RangeImpl_bool_def)
  then show ?thesis using False by (simp add: range_loop_def for_each_stop)
qed

lemma range_loop_overflow:
  "range_loop (range3 0x7FFFFFFFFFFFFFFE 0x7FFFFFFFFFFFFFFF 2) = None"
proof -
  let ?I = "\<lambda>g :: RangeImpl. step g = 2 \<and> comparison_mod g = 1 \<and> modded_end g = 0x7FFFFFFFFFFFFFFF \<and> even (val g)"
  have "for_each RangeImpl_bool RangeImpl_deref RangeImpl_incr
          (range3 0x7FFFFFFFFFFFFFFE 0x7FFFFFFFFFFFFFFF 2) = None"
  proof (rule for_each_None [where I = ?I])
    show "?I (range3 0x7FFFFFFFFFFFFFFE 0x7FFFFFFFFFFFFFFF 2)"
      by (simp add: range3_def RangeImpl_ctor_def word_sless_alt)
  next
    fix g assume I: "?I g"
    then have "val g \<noteq> 0x7FFFFFFFFFFFFFFF" by auto
    then have "sint (val g) \<noteq> sint (0x7FFFFFFFFFFFFFFF :: int64_t)"
      by (simp only: sint_eq64 not_False_eq_True)
    then have "sint (val g) < 9223372036854775807"
      using sint_in_range64 [of "val g"] by simp
    then have "RangeImpl_bool g" using I by (simp add: RangeImpl_bool_def word_sless_alt)
    then show "RangeImpl_bool g \<and> ?I (RangeImpl_incr g)"
      using I by (simp add: RangeImpl_incr_def)
  qed
  then show ?thesis by (simp add: range_loop_def)
qed

lemma RangeImpl_incr_funpow:
  "(RangeImpl_incr ^^ k) g = g\<lparr>val := val g + of_nat k * step g\<rparr>"
  by (induction k) (simp_all add: RangeImpl_incr_def algebra_simps)

lemma RangeImpl_bool_reached_asc:
  assumes "0 <s s"
  shows "RangeImpl_bool ((RangeImpl_incr ^^ k) (RangeImpl_ctor b e s))
           \<longleftrightarrow> val ((RangeImpl_incr ^^ k) (RangeImpl_ctor b e s)) <s e"
proof -
  have "\<not> s <s 0" using assms by (simp add: word_sless_alt)
  then show ?thesis
    by (simp add: RangeImpl_incr_funpow RangeImpl_ctor_asc RangeImpl_bool_def)
qed

lemma RangeImpl_bool_reached_desc:
  assumes "s <s 0"
    and "val ((RangeImpl_incr ^^ k) (RangeImpl_ctor b e s)) \<noteq> - 0x8000000000000000"
    and "e \<noteq> - 0x8000000000000000"
  shows "RangeImpl_bool ((RangeImpl_incr ^^ k) (RangeImpl_ctor b e s))
           \<longleftrightarrow> e <s val ((RangeImpl_incr ^^ k) (RangeImpl_ctor b e s))"
proof -
  let ?g = "(RangeImpl_incr ^^ k) (RangeImpl_ctor b e s)"
  have min: "sint (- 0x8000000000000000 :: int64_t) = - (2 ^ 63)" by simp
  have "sint (val ?g) \<noteq> - (2 ^ 63)"
    using assms(2) min by (metis sint_eq64)
  then have v: "- (2 ^ 63) < sint (val ?g)" using sint_in_range64 [of "val ?g"] by linarith
  have "sint e \<noteq> - (2 ^ 63)" using assms(3) min by (metis sint_eq64)
  then have e: "- (2 ^ 63) < sint e" using sint_in_range64 [of e] by linarith
  have "comparison_mod ?g = - 1" "modded_end ?g = e * (- 1)"
    using assms(1) by (simp_all add: RangeImpl_incr_funpow RangeImpl_ctor_desc)
  from RangeImpl_bool_desc [OF this v e] show ?thesis by (simp add: word_sless_alt)
qed

section \<open>Claims about the range generator\<close>

text \<open>
  C2 (as amended). \<^verbatim>\<open>range(end)\<close> with \<open>end \<ge> 0\<close> yields exactly the integers
  \<open>0, ..., end - 1\<close> in order, and \<^verbatim>\<open>range(0)\<close> yields nothing. With a positive
  step, \<^verbatim>\<open>range(begin, end, step)\<close> yields exactly \<open>begin, begin + step, ...\<close> while
  strictly below \<open>end\<close>, provided the first value of the progression that reaches
  \<open>end\<close> is at most \<open>2^63 - 1\<close>. With a negative step it yields exactly the
  descending values strictly above \<open>end\<close>, provided the first value of the
  progression that is not above \<open>end\<close> is strictly greater than \<open>-2^63\<close>. The loop
  ends in all these cases. \<^verbatim>\<open>range(2,11,3)\<close> yields 2, 5, 8 and \<^verbatim>\<open>range(3,7)\<close>
  yields 3, 4, 5, 6.

  Without the provisos the claim fails: \<^verbatim>\<open>val_ += step_\<close> wraps around (the source
  has no overflow check anywhere), and the negation \<^verbatim>\<open>val_ * comparison_mod_\<close> of
  \<open>-2^63\<close> is \<open>-2^63\<close> again.
\<close>
theorem range_yields_progression:
  fixes b e s :: int64_t
  shows "(0 \<le>s e \<longrightarrow>
            (\<exists>xs. range_loop (range1 e) = Some xs \<and> map sint xs = [0..sint e - 1]))
       \<and> range_loop (range1 0) = Some []
       \<and> (0 <s s \<and> range_stop (sint b) (sint e) (sint s) < 2 ^ 63 \<longrightarrow>
            (\<exists>xs. range_loop (range3 b e s) = Some xs
               \<and> map sint xs = range_spec (sint b) (sint e) (sint s)
               \<and> (\<forall>x\<in>set xs. x <s e)))
       \<and> (s <s 0 \<and> - (2 ^ 63) < range_stop (sint b) (sint e) (sint s) \<longrightarrow>
            (\<exists>xs. range_loop (range3 b e s) = Some xs
               \<and> map sint xs = range_spec (sint b) (sint e) (sint s)
               \<and> (\<forall>x\<in>set xs. e <s x)))
       \<and> range_loop (range3 2 11 3) = Some [2, 5, 8]
       \<and> range_loop (range2 3 7) = Some [3, 4, 5, 6]"
  using range1_yields [of e] range3_asc [of s b e] range3_desc [of s b e]
  by (simp add: range_loop_eval_0 range_loop_eval_2_11_3 range_loop_eval_3_7)

text \<open>An ascending and a descending instance of the provisos.\<close>

theorem range_yields_progression_witness:
  "(0 :: int64_t) \<le>s 5
   \<and> (\<exists>xs. range_loop (range1 5) = Some xs \<and> map sint xs = [0, 1, 2, 3, 4])
   \<and> (0 :: int64_t) <s 3
   \<and> range_stop (sint (2 :: int64_t)) (sint (11 :: int64_t)) (sint (3 :: int64_t)) < 2 ^ 63
   \<and> (\<exists>xs. range_loop (range3 2 11 3) = Some xs \<and> map sint xs = [2, 5, 8])
   \<and> (- 1 :: int64_t) <s 0
   \<and> - (2 ^ 63) < range_stop (sint (5 :: int64_t)) (sint (3 :: int64_t)) (sint (- 1 :: int64_t))
   \<and> (\<exists>xs. range_loop (range3 5 3 (- 1)) = Some xs \<and> map sint xs = [5, 4])"
proof -
  have h1: "(0 :: int64_t) \<le>s 5" by (simp add: word_sle_eq)
  have h2: "(0 :: int64_t) <s 3" by (simp add: word_sless_alt)
  have s2: "range_spec 2 11 3 = [2, 5, 8]" by (simp add: range_spec.simps)
  have h3: "range_stop (sint (2 :: int64_t)) (sint (11 :: int64_t)) (sint (3 :: int64_t)) < 2 ^ 63"
    by (simp add: range_stop_def s2)
  have h4: "(- 1 :: int64_t) <s 0" by (simp add: word_sless_alt)
  have s5: "range_spec 5 3 (- 1) = [5, 4]" by (simp add: range_spec.simps)
  have h5: "- (2 ^ 63) < range_stop (sint (5 :: int64_t)) (sint (3 :: int64_t)) (sint (- 1 :: int64_t))"
    by (simp add: range_stop_def s5)
  have u: "[0..(4::int)] = [0, 1, 2, 3, 4]" by (simp add: upto_rec1)
  show ?thesis
    using h1 h2 h3 h4 h5
      range_yields_progression [where e = 5 and b = 0 and s = 1]
      range_yields_progression [where e = 11 and b = 2 and s = 3]
      range_yields_progression [where e = 3 and b = 5 and s = "- 1"]
    by (auto simp: s2 s5 u)
qed

text \<open>
  \<^verbatim>\<open>range(2^63 - 2, 2^63 - 1, 2)\<close> should yield the one value \<open>2^63 - 2\<close>; the loop
  never ends. \<^verbatim>\<open>range(-2^63, 0, -1)\<close> should yield nothing; the generator has more
  at construction and its value \<open>-2^63\<close> is not above \<open>end = 0\<close>.
\<close>

theorem range_yields_progression_counterexample:
  "range_loop (range3 0x7FFFFFFFFFFFFFFE 0x7FFFFFFFFFFFFFFF 2) = None
   \<and> range_spec 0x7FFFFFFFFFFFFFFE 0x7FFFFFFFFFFFFFFF 2 = [0x7FFFFFFFFFFFFFFE]
   \<and> RangeImpl_bool (range3 (- 0x8000000000000000) 0 (- 1))
   \<and> RangeImpl_deref (range3 (- 0x8000000000000000) 0 (- 1)) = - 0x8000000000000000
   \<and> \<not> ((0 :: int64_t) <s - 0x8000000000000000)
   \<and> range_spec (- 0x8000000000000000) 0 (- 1) = []"
proof -
  have "range_spec 0x7FFFFFFFFFFFFFFE 0x7FFFFFFFFFFFFFFF 2 = [0x7FFFFFFFFFFFFFFE]"
    by (simp add: range_spec.simps)
  moreover have "range_spec (- 0x8000000000000000) 0 (- 1) = []"
    by (simp add: range_spec.simps)
  moreover have "RangeImpl_bool (range3 (- 0x8000000000000000) 0 (- 1))
      \<and> RangeImpl_deref (range3 (- 0x8000000000000000) 0 (- 1)) = - 0x8000000000000000
      \<and> \<not> ((0 :: int64_t) <s - 0x8000000000000000)"
    by (simp add: range3_def RangeImpl_ctor_def RangeImpl_bool_def RangeImpl_deref_def
        word_sless_alt)
  ultimately show ?thesis using range_loop_overflow by simp
qed

text \<open>
  C4 (as amended). Constructing a range with \<open>step = 0\<close> is not rejected: the
  constructor has no check and stores its arguments, with \<open>comparison_mod = 1\<close>.
  Advancing such a generator leaves it unchanged, so the loop over it never ends when
  \<open>begin < end\<close>, and yields nothing when \<open>begin \<ge> end\<close>.
\<close>
theorem range_zero_step_accepted:
  "range3 b e 0 = \<lparr>val = b, step = 0, comparison_mod = 1, modded_end = e\<rparr>
   \<and> RangeImpl_incr (range3 b e 0) = range3 b e 0
   \<and> range_loop (range3 b e 0) = (if b <s e then None else Some [])"
  by (simp add: range_loop_zero_step) (simp add: range3_def RangeImpl_ctor_def RangeImpl_incr_def)

text \<open>\<^verbatim>\<open>range(0, 1, 0)\<close> is constructed, has more, and the loop over it never ends.\<close>

theorem range_zero_step_counterexample:
  "RangeImpl_bool (range3 0 1 0)
   \<and> RangeImpl_incr (range3 0 1 0) = range3 0 1 0
   \<and> RangeImpl_deref (range3 0 1 0) = 0
   \<and> range_loop (range3 0 1 0) = None"
  by (simp add: range_loop_zero_step word_sless_alt)
    (simp add: range3_def RangeImpl_ctor_def RangeImpl_incr_def RangeImpl_bool_def
      RangeImpl_deref_def word_sless_alt)

text \<open>
  C6 (as amended). In every state a range generator reaches, the continuation
  predicate \<^verbatim>\<open>(val_ * comparison_mod_) < modded_end_\<close> is the comparison
  \<open>value < end\<close> when \<open>step > 0\<close>; when \<open>step < 0\<close> it is the comparison \<open>value > end\<close>
  provided neither the value nor \<open>end\<close> is \<open>-2^63\<close>, the one 64-bit integer whose
  product with \<open>-1\<close> is not its negation.
\<close>
theorem range_continuation_directional:
  fixes b e s :: int64_t
  shows "(0 <s s \<longrightarrow>
           (RangeImpl_bool ((RangeImpl_incr ^^ k) (RangeImpl_ctor b e s))
              \<longleftrightarrow> val ((RangeImpl_incr ^^ k) (RangeImpl_ctor b e s)) <s e))
       \<and> (s <s 0 \<and> val ((RangeImpl_incr ^^ k) (RangeImpl_ctor b e s)) \<noteq> - 0x8000000000000000
            \<and> e \<noteq> - 0x8000000000000000 \<longrightarrow>
           (RangeImpl_bool ((RangeImpl_incr ^^ k) (RangeImpl_ctor b e s))
              \<longleftrightarrow> e <s val ((RangeImpl_incr ^^ k) (RangeImpl_ctor b e s))))"
  using RangeImpl_bool_reached_asc [of s k b e] RangeImpl_bool_reached_desc [of s k b e]
  by blast

text \<open>An ascending and a descending generator after two advances.\<close>

theorem range_continuation_directional_witness:
  "(0 :: int64_t) <s 3
   \<and> RangeImpl_bool ((RangeImpl_incr ^^ 2) (RangeImpl_ctor 2 11 3))
   \<and> val ((RangeImpl_incr ^^ 2) (RangeImpl_ctor 2 11 3)) <s 11
   \<and> (- 1 :: int64_t) <s 0
   \<and> val ((RangeImpl_incr ^^ 2) (RangeImpl_ctor 5 3 (- 1))) \<noteq> - 0x8000000000000000
   \<and> (3 :: int64_t) \<noteq> - 0x8000000000000000
   \<and> \<not> RangeImpl_bool ((RangeImpl_incr ^^ 2) (RangeImpl_ctor 5 3 (- 1)))
   \<and> \<not> 3 <s val ((RangeImpl_incr ^^ 2) (RangeImpl_ctor 5 3 (- 1)))"
  using range_continuation_directional [of 3 2 2 11] range_continuation_directional [of "- 1" 2 5 3]
  by (simp add: RangeImpl_incr_funpow RangeImpl_ctor_def RangeImpl_bool_def word_sless_alt
      Let_def)

text \<open>
  \<^verbatim>\<open>range(-2^63, 0, -1)\<close>: the step is negative, the predicate holds, the value is
  not above \<open>end\<close>.
\<close>

theorem range_continuation_counterexample:
  "(- 1 :: int64_t) <s 0
   \<and> RangeImpl_bool (RangeImpl_ctor (- 0x8000000000000000) 0 (- 1))
   \<and> \<not> (0 <s val (RangeImpl_ctor (- 0x8000000000000000) 0 (- 1)))"
  by (simp add: RangeImpl_bool_def RangeImpl_ctor_def word_sless_alt)

section \<open>Enumerate: states, loop, and the two implementations\<close>

lemma enumerate_incr_funpow:
  "(enumerate_incr ^^ k) (enumerate_ctor xs s) =
     \<lparr>enum_iterable = xs, starting_idx = s,
      state = \<lparr>idx = s + of_nat k, iter = \<lparr>seq = xs, pos = k\<rparr>\<rparr>\<rparr>"
  by (induction k)
    (simp_all add: enumerate_ctor_def enumerate_incr_def std_begin_def iter_incr_def algebra_simps)

lemma enumerate_bool_funpow:
  "enumerate_bool ((enumerate_incr ^^ k) (enumerate_ctor xs s)) \<longleftrightarrow> k \<noteq> length xs"
  by (simp add: enumerate_incr_funpow enumerate_bool_def iter_neq_def std_end_def)

lemma enumerate_bind_funpow:
  "k < length xs \<Longrightarrow>
   (EnumerateState_bind \<circ> enumerate_deref) ((enumerate_incr ^^ k) (enumerate_ctor xs s))
     = (RetIdx (s + of_nat k), RetElem (xs ! k))"
  by (simp add: enumerate_incr_funpow enumerate_deref_def EnumerateState_bind_def
      EnumerateState_get_def iter_deref_def)

lemma enumerate_loop_ctor:
  "enumerate_loop (enumerate_ctor xs s) =
     Some (map (\<lambda>k. (RetIdx (s + of_nat k), RetElem (xs ! k))) [0..<length xs])"
proof -
  have "enumerate_loop (enumerate_ctor xs s) =
      Some (map (\<lambda>k. (EnumerateState_bind \<circ> enumerate_deref)
                        ((enumerate_incr ^^ k) (enumerate_ctor xs s))) [0..<length xs])"
    unfolding enumerate_loop_def
    by (rule for_each_iterate) (simp_all add: enumerate_bool_funpow)
  also have "map (\<lambda>k. (EnumerateState_bind \<circ> enumerate_deref)
                        ((enumerate_incr ^^ k) (enumerate_ctor xs s))) [0..<length xs]
      = map (\<lambda>k. (RetIdx (s + of_nat k), RetElem (xs ! k))) [0..<length xs]"
    by (rule map_cong) (simp_all add: enumerate_bind_funpow del: o_apply)
  finally show ?thesis .
qed

lemma sint_add_of_nat64:
  fixes s :: int64_t
  assumes "sint s + int k < 2 ^ 63"
  shows "sint (s + of_nat k) = sint s + int k"
proof -
  have "s + of_nat k = word_of_int (sint s + int k)" by simp
  then have "sint (s + of_nat k) = signed_take_bit 63 (sint s + int k)"
    by (simp only: sint_sbintrunc') simp
  also have "\<dots> = sint s + int k"
    using assms sint_in_range64 [of s] by (simp add: signed_take_bit_int_eq_self)
  finally show ?thesis .
qed

text \<open>
  C3 (as amended). For a sequence \<open>S\<close> of length \<open>L\<close> and a start index \<open>s\<close>, the loop
  over \<^verbatim>\<open>enumerate{S, s}\<close> ends and yields exactly \<open>L\<close> pairs, the \<open>k\<close>-th pairing
  \<open>S[k]\<close> with the \<^verbatim>\<open>int64_t\<close> sum of \<open>s\<close> and \<open>k\<close>; provided \<open>s + L - 1 \<le> 2^63 - 1\<close>
  that index is the integer \<open>s + k\<close>, so the pairs are
  \<open>(s, S[0]), (s + 1, S[1]), ..., (s + L - 1, S[L - 1])\<close>. The start index is 0 when
  omitted; an empty sequence yields no pair. Scenario B of the spec is the last two
  conjuncts.

  Without the proviso the claim fails: \<^verbatim>\<open>++state_.idx_\<close> wraps around at
  \<open>2^63 - 1\<close> (the source has no overflow check anywhere).
\<close>
theorem enumerate_yields_pairs:
  fixes s :: int64_t
  shows "enumerate_loop (enumerate_ctor xs s) =
           Some (map (\<lambda>k. (RetIdx (s + of_nat k), RetElem (xs ! k))) [0..<length xs])
       \<and> enumerate_loop (enumerate_ctor1 xs) =
           Some (map (\<lambda>k. (RetIdx (of_nat k), RetElem (xs ! k))) [0..<length xs])
       \<and> enumerate_loop (enumerate_ctor [] s) = Some []
       \<and> (sint s + int (length xs) \<le> 2 ^ 63 \<longrightarrow>
            (\<forall>k<length xs. sint (s + of_nat k) = sint s + int k))
       \<and> enumerate_loop (enumerate_ctor1 [1, 2, 3 :: int]) =
           Some [(RetIdx 0, RetElem 1), (RetIdx 1, RetElem 2), (RetIdx 2, RetElem 3)]
       \<and> enumerate_loop (enumerate_ctor [1, 2, 3 :: int] 10) =
           Some [(RetIdx 10, RetElem 1), (RetIdx 11, RetElem 2), (RetIdx 12, RetElem 3)]"
proof -
  have "\<forall>k<length xs. sint (s + of_nat k) = sint s + int k"
    if "sint s + int (length xs) \<le> 2 ^ 63"
    using that by (auto intro!: sint_add_of_nat64)
  moreover have "[0..<3] = [0, 1, 2]" by (simp add: upt_rec)
  ultimately show ?thesis
    by (simp add: enumerate_loop_ctor enumerate_ctor1_def)
qed

theorem enumerate_yields_pairs_witness:
  "sint (10 :: int64_t) + int (length [1, 2, 3 :: int]) \<le> 2 ^ 63
   \<and> sint (10 + of_nat 2 :: int64_t) = sint (10 :: int64_t) + int 2
   \<and> enumerate_loop (enumerate_ctor [1, 2, 3 :: int] 10) =
        Some [(RetIdx 10, RetElem 1), (RetIdx 11, RetElem 2), (RetIdx 12, RetElem 3)]"
proof -
  have h: "sint (10 :: int64_t) + int (length [1, 2, 3 :: int]) \<le> 2 ^ 63" by simp
  have k: "(2 :: nat) < length [1, 2, 3 :: int]" by simp
  from enumerate_yields_pairs [of "[1, 2, 3 :: int]" 10] h
  have "\<forall>k<length [1, 2, 3 :: int]. sint (10 + of_nat k :: int64_t) = sint (10 :: int64_t) + int k"
    and "enumerate_loop (enumerate_ctor [1, 2, 3 :: int] 10) =
        Some [(RetIdx 10, RetElem 1), (RetIdx 11, RetElem 2), (RetIdx 12, RetElem 3)]"
    by blast+
  with h k show ?thesis by blast
qed

text \<open>
  \<^verbatim>\<open>enumerate([4,5,6], 2^63 - 2)\<close> should yield the indices \<open>2^63 - 2\<close>, \<open>2^63 - 1\<close>
  and \<open>2^63\<close>; the third index yielded is \<open>-2^63\<close>.
\<close>

theorem enumerate_yields_pairs_counterexample:
  "enumerate_loop (enumerate_ctor [4, 5, 6 :: int] 0x7FFFFFFFFFFFFFFE) =
     Some [(RetIdx 0x7FFFFFFFFFFFFFFE, RetElem 4), (RetIdx 0x7FFFFFFFFFFFFFFF, RetElem 5),
           (RetIdx (- 0x8000000000000000), RetElem 6)]
   \<and> sint (- 0x8000000000000000 :: int64_t) = - (2 ^ 63)
   \<and> sint (0x7FFFFFFFFFFFFFFE :: int64_t) + 2 = 2 ^ 63"
proof -
  have "[0..<3] = [0, 1, 2]" by (simp add: upt_rec)
  then show ?thesis by (simp add: enumerate_loop_ctor)
qed

text \<open>
  C8 (as amended). The index of an enumerate generator is the starting index at
  construction (0 when omitted). Every advance adds 1 to it in \<^verbatim>\<open>int64_t\<close>, which is
  the integer successor unless the index is \<open>2^63 - 1\<close>. After \<open>k\<close> advances it is the
  \<^verbatim>\<open>int64_t\<close> sum of the starting index and \<open>k\<close>, which is the integer
  \<open>starting index + k\<close> provided that integer is at most \<open>2^63 - 1\<close>. The stored
  starting index never changes.

  Without the provisos the claim fails: \<^verbatim>\<open>++state_.idx_\<close> wraps around at
  \<open>2^63 - 1\<close> (the source has no overflow check anywhere).
\<close>
theorem enumerate_index_invariant:
  "idx (state (enumerate_ctor xs s)) = s
   \<and> idx (state (enumerate_ctor1 xs)) = 0
   \<and> idx (state (enumerate_incr g)) = idx (state g) + 1
   \<and> (sint (idx (state g)) < 2 ^ 63 - 1 \<longrightarrow>
        sint (idx (state (enumerate_incr g))) = sint (idx (state g)) + 1)
   \<and> idx (state ((enumerate_incr ^^ k) (enumerate_ctor xs s))) = s + of_nat k
   \<and> (sint s + int k < 2 ^ 63 \<longrightarrow>
        sint (idx (state ((enumerate_incr ^^ k) (enumerate_ctor xs s)))) = sint s + int k)
   \<and> starting_idx ((enumerate_incr ^^ k) (enumerate_ctor xs s)) = s"
proof -
  have one: "sint (idx (state (enumerate_incr g))) = sint (idx (state g)) + 1"
    if "sint (idx (state g)) < 2 ^ 63 - 1"
  proof -
    have "sint (idx (state g) + of_nat 1) = sint (idx (state g)) + int 1"
      by (rule sint_add_of_nat64) (use that in simp)
    then show ?thesis by (simp add: enumerate_incr_def)
  qed
  have many: "sint (idx (state ((enumerate_incr ^^ k) (enumerate_ctor xs s)))) = sint s + int k"
    if "sint s + int k < 2 ^ 63"
    using that by (simp add: enumerate_incr_funpow sint_add_of_nat64)
  have rest: "idx (state (enumerate_ctor xs s)) = s" "idx (state (enumerate_ctor1 xs)) = 0"
    "idx (state (enumerate_incr g)) = idx (state g) + 1"
    "idx (state ((enumerate_incr ^^ k) (enumerate_ctor xs s))) = s + of_nat k"
    "starting_idx ((enumerate_incr ^^ k) (enumerate_ctor xs s)) = s"
    by (simp_all add: enumerate_incr_funpow)
      (simp_all add: enumerate_ctor1_def enumerate_ctor_def enumerate_incr_def)
  from one many rest show ?thesis by blast
qed

text \<open>An index below \<open>2^63 - 1\<close>: two advances from 10.\<close>

theorem enumerate_index_invariant_witness:
  "sint (idx (state (enumerate_ctor [1, 2, 3 :: int] 10))) < 2 ^ 63 - 1
   \<and> sint (idx (state (enumerate_incr (enumerate_ctor [1, 2, 3 :: int] 10)))) = 11
   \<and> sint (10 :: int64_t) + int 2 < 2 ^ 63
   \<and> sint (idx (state ((enumerate_incr ^^ 2) (enumerate_ctor [1, 2, 3 :: int] 10)))) = 12"
proof -
  let ?g = "enumerate_ctor [1, 2, 3 :: int] 10"
  have i: "idx (state ?g) = 10" by (simp add: enumerate_ctor_def)
  have h1: "sint (idx (state ?g)) < 2 ^ 63 - 1" by (simp add: i)
  have h2: "sint (10 :: int64_t) + int 2 < 2 ^ 63" by simp
  from enumerate_index_invariant [where g = ?g and s = 10 and k = 2 and xs = "[1, 2, 3 :: int]"]
    h1 h2
  have "sint (idx (state (enumerate_incr ?g))) = sint (idx (state ?g)) + 1"
    and "sint (idx (state ((enumerate_incr ^^ 2) ?g))) = sint (10 :: int64_t) + int 2"
    by blast+
  with h1 h2 i show ?thesis by simp
qed

text \<open>
  \<^verbatim>\<open>enumerate([1,2], 2^63 - 1)\<close> has more at construction; after the one advance the
  index is \<open>-2^63\<close>, not \<open>2^63\<close>.
\<close>

theorem enumerate_index_invariant_counterexample:
  "enumerate_bool (enumerate_ctor [1, 2 :: int] 0x7FFFFFFFFFFFFFFF)
   \<and> sint (idx (state (enumerate_incr (enumerate_ctor [1, 2 :: int] 0x7FFFFFFFFFFFFFFF))))
       = - (2 ^ 63)
   \<and> sint (0x7FFFFFFFFFFFFFFF :: int64_t) + 1 = 2 ^ 63"
  by (simp add: enumerate_bool_def enumerate_ctor_def enumerate_incr_def iter_neq_def
      std_begin_def std_end_def)

lemma as_Enumerator_incr:
  "EnumeratorImpl_incr (as_Enumerator g) = as_Enumerator (enumerate_incr g)"
  by (simp add: as_Enumerator_def EnumeratorImpl_incr_def enumerate_incr_def)

lemma as_Enumerator_ctor: "EnumeratorImpl_ctor xs s = as_Enumerator (enumerate_ctor xs s)"
  by (simp add: as_Enumerator_def EnumeratorImpl_ctor_def enumerate_ctor_def)

lemma as_Enumerator_funpow:
  "(EnumeratorImpl_incr ^^ k) (as_Enumerator g) = as_Enumerator ((enumerate_incr ^^ k) g)"
  by (induction k) (simp_all add: as_Enumerator_incr)

lemma as_Enumerator_bool: "EnumeratorImpl_bool (as_Enumerator g) = enumerate_bool g"
  by (simp add: as_Enumerator_def EnumeratorImpl_bool_def enumerate_bool_def)

lemma as_Enumerator_get:
  "EnumeratorState_get N (EnumeratorImpl_deref (as_Enumerator g))
     = EnumerateState_get N (enumerate_deref g)"
  by (simp add: as_Enumerator_def EnumeratorState_get_def EnumerateState_get_def
      EnumeratorImpl_deref_def enumerate_deref_def)

lemma as_Enumerator_bind:
  "(EnumeratorState_bind \<circ> EnumeratorImpl_deref) (as_Enumerator g)
     = (EnumerateState_bind \<circ> enumerate_deref) g"
  by (simp add: EnumeratorState_bind_def EnumerateState_bind_def as_Enumerator_get)

lemma Enumerator_loop_ctor:
  "Enumerator_loop (EnumeratorImpl_ctor xs s) = enumerate_loop (enumerate_ctor xs s)"
proof -
  let ?g = "enumerate_ctor xs s"
  have "Enumerator_loop (as_Enumerator ?g) =
      Some (map (\<lambda>k. (EnumeratorState_bind \<circ> EnumeratorImpl_deref)
                        ((EnumeratorImpl_incr ^^ k) (as_Enumerator ?g))) [0..<length xs])"
    unfolding Enumerator_loop_def
    by (rule for_each_iterate)
      (simp_all add: as_Enumerator_funpow as_Enumerator_bool enumerate_bool_funpow)
  moreover have "enumerate_loop ?g =
      Some (map (\<lambda>k. (EnumerateState_bind \<circ> enumerate_deref)
                        ((enumerate_incr ^^ k) ?g)) [0..<length xs])"
    unfolding enumerate_loop_def
    by (rule for_each_iterate) (simp_all add: enumerate_bool_funpow)
  ultimately show ?thesis
    by (simp only: as_Enumerator_ctor as_Enumerator_funpow as_Enumerator_bind)
qed

text \<open>
  C10. The class \<^verbatim>\<open>enumerate\<close> of utilities/enumerate.h and \<^verbatim>\<open>EnumeratorImpl\<close> of
  include/util/gen/enumerator.h behave alike: read member by member, construction,
  "has more", every positional \<^verbatim>\<open>get<N>\<close> of the current state and "advance"
  commute with \<open>as_Enumerator\<close>, so after any number of advances from the same
  sequence and starting index the two are in corresponding states, and the loops over
  them yield the same pairs.
\<close>
theorem enumerate_implementations_agree:
  "EnumeratorImpl_ctor xs s = as_Enumerator (enumerate_ctor xs s)
   \<and> EnumeratorImpl_ctor1 xs = as_Enumerator (enumerate_ctor1 xs)
   \<and> EnumeratorImpl_bool (as_Enumerator g) = enumerate_bool g
   \<and> (\<forall>N. EnumeratorState_get N (EnumeratorImpl_deref (as_Enumerator g))
            = EnumerateState_get N (enumerate_deref g))
   \<and> EnumeratorState_bind (EnumeratorImpl_deref (as_Enumerator g))
       = EnumerateState_bind (enumerate_deref g)
   \<and> EnumeratorImpl_incr (as_Enumerator g) = as_Enumerator (enumerate_incr g)
   \<and> (EnumeratorImpl_incr ^^ k) (EnumeratorImpl_ctor xs s)
       = as_Enumerator ((enumerate_incr ^^ k) (enumerate_ctor xs s))
   \<and> Enumerator_loop (EnumeratorImpl_ctor xs s) = enumerate_loop (enumerate_ctor xs s)
   \<and> inj (as_Enumerator :: 'a enumerate \<Rightarrow> 'a EnumeratorImpl)"
proof -
  have "inj (as_Enumerator :: 'a enumerate \<Rightarrow> 'a EnumeratorImpl)"
    by (rule injI) (simp add: as_Enumerator_def enumerate.equality EnumerateState.equality)
  moreover have "EnumeratorImpl_ctor1 xs = as_Enumerator (enumerate_ctor1 xs)"
    by (simp add: EnumeratorImpl_ctor1_def enumerate_ctor1_def as_Enumerator_ctor)
  moreover have "EnumeratorState_bind (EnumeratorImpl_deref (as_Enumerator g))
       = EnumerateState_bind (enumerate_deref g)"
    using as_Enumerator_bind [of g] by simp
  ultimately show ?thesis
    by (simp add: as_Enumerator_ctor [symmetric] as_Enumerator_bool as_Enumerator_get
        as_Enumerator_incr as_Enumerator_funpow [symmetric] Enumerator_loop_ctor)
qed

section \<open>Zip: markers in lockstep\<close>

lemma markers_ctor: "markers (ZipState_ctor sto) = map std_begin (iterables sto)"
  by (induction sto) (simp_all add: ZipStorage_begin_def)

lemma markers_incr: "markers (ZipState_incr st) = map iter_incr (markers st)"
  by (induction st) simp_all

lemma markers_incr_funpow: "markers ((ZipState_incr ^^ k) st) = map (iter_incr ^^ k) (markers st)"
  by (induction k) (simp_all add: markers_incr)

lemma iter_incr_funpow: "(iter_incr ^^ k) it = it\<lparr>pos := pos it + k\<rparr>"
  by (induction k) (simp_all add: iter_incr_def)

lemma markers_reached:
  "markers ((ZipState_incr ^^ k) (ZipState_ctor sto))
     = map (\<lambda>xs. \<lparr>seq = xs, pos = k\<rparr>) (iterables sto)"
  by (simp add: markers_incr_funpow markers_ctor iter_incr_funpow std_begin_def)

lemma iterables_nonempty: "iterables sto \<noteq> []"
  by (cases sto) simp_all

lemma markers_nonempty: "markers st \<noteq> []"
  by (cases st) simp_all

lemma can_advance_markers:
  "can_advance st sto
     \<longleftrightarrow> list_all2 (\<lambda>it xs. iter_neq it (std_end xs)) (markers st) (iterables sto)"
  by (induction st sto rule: can_advance.induct)
    (simp_all add: ZipStorage_end_def iterables_nonempty markers_nonempty)

lemma ZipState_size_markers: "ZipState_size st = length (markers st)"
  by (induction st) simp_all

lemma ZipState_get_markers:
  "ZipState_get N IDX st =
     (if IDX \<le> N \<and> N < IDX + length (markers st) then iter_deref (markers st ! (N - IDX))
      else RetVoid)"
proof (induction st arbitrary: IDX)
  case (ZipState1 it)
  then show ?case by auto
next
  case (ZipStateN it ns)
  show ?case
  proof (cases "N = IDX")
    case True
    then show ?thesis by simp
  next
    case False
    then show ?thesis
      by (auto simp: ZipStateN.IH Suc_diff_le nth_Cons' )
  qed
qed

lemma ZipState_bind_markers: "ZipState_bind st = map iter_deref (markers st)"
  by (rule nth_equalityI)
    (simp_all add: ZipState_bind_def ZipState_size_markers ZipState_get_markers)

lemma zip_incr_funpow:
  "(zip_incr ^^ k) z = z\<lparr>zip_state := (ZipState_incr ^^ k) (zip_state z)\<rparr>"
  by (induction k) (simp_all add: zip_incr_def)

lemma zip_bool_reached:
  "zip_bool ((zip_incr ^^ k) (zip_ctor sto)) \<longleftrightarrow> (\<forall>xs\<in>set (iterables sto). k \<noteq> length xs)"
  by (simp add: zip_incr_funpow zip_bool_def zip_ctor_def can_advance_markers markers_reached
      list_all2_map1 list_all2_same iter_neq_def std_end_def)

lemma zip_bind_reached:
  assumes "\<forall>xs\<in>set (iterables sto). k < length xs"
  shows "(ZipState_bind \<circ> zip_deref) ((zip_incr ^^ k) (zip_ctor sto))
           = map (\<lambda>xs. RetElem (xs ! k)) (iterables sto)"
  using assms
  by (simp add: zip_incr_funpow zip_deref_def zip_ctor_def ZipState_bind_markers markers_reached
      iter_deref_def)

lemma zip_loop_ctor:
  "zip_loop (zip_ctor sto) =
     Some (map (\<lambda>i. map (\<lambda>xs. RetElem (xs ! i)) (iterables sto))
             [0..<Min (length ` set (iterables sto))])"
proof -
  let ?L = "length ` set (iterables sto)"
  let ?m = "Min ?L"
  have fin: "finite ?L" and ne: "?L \<noteq> {}" by (simp_all add: iterables_nonempty)
  have lt: "k < ?m \<longleftrightarrow> (\<forall>xs\<in>set (iterables sto). k < length xs)" for k
    using fin ne by (simp add: Min_gr_iff)
  have "?m \<in> ?L" using fin ne by (rule Min_in)
  then have stop: "\<not> zip_bool ((zip_incr ^^ ?m) (zip_ctor sto))"
    by (auto simp: zip_bool_reached)
  have go: "zip_bool ((zip_incr ^^ k) (zip_ctor sto))" if "k < ?m" for k
    using that lt [of k] by (auto simp: zip_bool_reached)
  have "zip_loop (zip_ctor sto) =
      Some (map (\<lambda>k. (ZipState_bind \<circ> zip_deref) ((zip_incr ^^ k) (zip_ctor sto))) [0..<?m])"
    unfolding zip_loop_def using go stop by (rule for_each_iterate)
  also have "map (\<lambda>k. (ZipState_bind \<circ> zip_deref) ((zip_incr ^^ k) (zip_ctor sto))) [0..<?m]
      = map (\<lambda>i. map (\<lambda>xs. RetElem (xs ! i)) (iterables sto)) [0..<?m]"
  proof (rule map_cong [OF refl])
    fix k assume "k \<in> set [0..<?m]"
    then have "k < ?m" by simp
    then have "\<forall>xs\<in>set (iterables sto). k < length xs" by (simp only: lt)
    then show "(ZipState_bind \<circ> zip_deref) ((zip_incr ^^ k) (zip_ctor sto))
        = map (\<lambda>xs. RetElem (xs ! k)) (iterables sto)"
      by (rule zip_bind_reached)
  qed
  finally show ?thesis .
qed

text \<open>
  C1. For inputs \<open>S1, ..., Sn\<close> (\<open>n \<ge> 1\<close>) the loop over \<^verbatim>\<open>zip{S1, ..., Sn}\<close> ends
  and yields exactly \<open>min (L1, ..., Ln)\<close> tuples, the \<open>i\<close>-th being
  \<open>(S1[i], ..., Sn[i])\<close>; it yields no tuple when some input is empty; over one
  input it yields the one-element tuples of its elements in order; and
  \<^verbatim>\<open>zip([1,2,3],[7,8])\<close> yields \<open>(1,7), (2,8)\<close>.
\<close>
theorem zip_yields_tuples:
  "zip_loop (zip_ctor sto) =
     Some (map (\<lambda>i. map (\<lambda>xs. RetElem (xs ! i)) (iterables sto))
             [0..<Min (length ` set (iterables sto))])
   \<and> ([] \<in> set (iterables sto) \<longrightarrow> zip_loop (zip_ctor sto) = Some [])
   \<and> zip_loop (zip_ctor (ZipStorage1 xs)) = Some (map (\<lambda>x. [RetElem x]) xs)
   \<and> zip_loop (zip_ctor (ZipStorageN [1, 2, 3 :: int] (ZipStorage1 [7, 8]))) =
       Some [[RetElem 1, RetElem 7], [RetElem 2, RetElem 8]]"
proof -
  have empty: "zip_loop (zip_ctor sto) = Some []" if "[] \<in> set (iterables sto)"
  proof -
    have "0 \<in> length ` set (iterables sto)" using that by force
    then have "Min (length ` set (iterables sto)) = 0"
      by (metis List.finite_set finite_imageI Min_le le_zero_eq)
    then show ?thesis by (simp add: zip_loop_ctor)
  qed
  have single: "zip_loop (zip_ctor (ZipStorage1 xs)) = Some (map (\<lambda>x. [RetElem x]) xs)"
  proof -
    have "map (\<lambda>i. [RetElem (xs ! i)]) [0..<length xs] = map (\<lambda>x. [RetElem x]) xs"
      by (rule nth_equalityI) simp_all
    then show ?thesis by (simp add: zip_loop_ctor)
  qed
  have "[0..<2] = [0, 1]" by (simp add: upt_rec)
  then have e: "zip_loop (zip_ctor (ZipStorageN [1, 2, 3 :: int] (ZipStorage1 [7, 8]))) =
       Some [[RetElem 1, RetElem 7], [RetElem 2, RetElem 8]]"
    by (simp add: zip_loop_ctor)
  show ?thesis using empty single e zip_loop_ctor [of sto] by blast
qed

theorem zip_yields_tuples_witness:
  "[] \<in> set (iterables (ZipStorageN [1, 2, 3 :: int] (ZipStorage1 [])))
   \<and> zip_loop (zip_ctor (ZipStorageN [1, 2, 3 :: int] (ZipStorage1 []))) = Some []"
proof -
  have h: "[] \<in> set (iterables (ZipStorageN [1, 2, 3 :: int] (ZipStorage1 [])))" by simp
  with zip_yields_tuples [of "ZipStorageN [1, 2, 3 :: int] (ZipStorage1 [])"] show ?thesis
    by blast
qed

lemma zip_reachable_funpow:
  assumes "zip_reachable sto z"
  shows "\<exists>k. z = (zip_incr ^^ k) (zip_ctor sto) \<and> (\<forall>xs\<in>set (iterables sto). k \<le> length xs)"
  using assms
proof (induction rule: zip_reachable.induct)
  case zip_reachable_ctor
  have "zip_ctor sto = (zip_incr ^^ 0) (zip_ctor sto)" by simp
  then show ?case by blast
next
  case (zip_reachable_incr z)
  then obtain k where k: "z = (zip_incr ^^ k) (zip_ctor sto)"
    and le: "\<forall>xs\<in>set (iterables sto). k \<le> length xs" by blast
  from zip_reachable_incr.hyps(2) k have "\<forall>xs\<in>set (iterables sto). k \<noteq> length xs"
    by (simp add: zip_bool_reached)
  with le have "\<forall>xs\<in>set (iterables sto). Suc k \<le> length xs" by (simp add: Suc_le_eq le_neq_implies_less)
  moreover have "zip_incr z = (zip_incr ^^ Suc k) (zip_ctor sto)" using k by simp
  ultimately show ?case by blast
qed

lemma zip_bool_markers:
  "zip_bool z \<longleftrightarrow>
     list_all2 (\<lambda>it xs. pos it \<noteq> length xs) (markers (zip_state z)) (iterables (storage z))"
  by (simp add: zip_bool_def can_advance_markers iter_neq_def std_end_def)

lemma zip_reachable_bool:
  assumes "zip_reachable sto z"
  shows "(\<exists>k. markers (zip_state z) = map (\<lambda>xs. \<lparr>seq = xs, pos = k\<rparr>) (iterables sto))
       \<and> (zip_bool z \<longleftrightarrow> (\<forall>it\<in>set (markers (zip_state z)). pos it < length (seq it)))"
proof -
  from zip_reachable_funpow [OF assms] obtain k where k: "z = (zip_incr ^^ k) (zip_ctor sto)"
    and le: "\<forall>xs\<in>set (iterables sto). k \<le> length xs" by blast
  have m: "markers (zip_state z) = map (\<lambda>xs. \<lparr>seq = xs, pos = k\<rparr>) (iterables sto)"
    by (simp add: k zip_incr_funpow zip_ctor_def markers_reached)
  have "zip_bool z \<longleftrightarrow> (\<forall>xs\<in>set (iterables sto). k \<noteq> length xs)"
    by (simp add: k zip_bool_reached)
  also have "\<dots> \<longleftrightarrow> (\<forall>xs\<in>set (iterables sto). k < length xs)"
    using le by (auto simp: le_neq_implies_less)
  also have "\<dots> \<longleftrightarrow> (\<forall>it\<in>set (markers (zip_state z)). pos it < length (seq it))"
    by (simp add: m)
  finally show ?thesis using m by blast
qed

text \<open>
  C5. \<^verbatim>\<open>operator++\<close> of a zip state advances each of its markers by exactly one
  step, whatever their positions; so after \<open>k\<close> advances from construction every
  marker stands at position \<open>k\<close> of its own input. \<^verbatim>\<open>operator bool\<close> holds iff every
  marker differs from the end marker of its own input; in every state reached by
  advancing only while \<^verbatim>\<open>operator bool\<close> holds, that is: iff every marker is strictly
  before its own end.
\<close>
theorem zip_markers_lockstep:
  "markers (ZipState_incr st) = map iter_incr (markers st)
   \<and> zip_state (zip_incr z) = ZipState_incr (zip_state z)
   \<and> storage (zip_incr z) = storage z
   \<and> markers (zip_state ((zip_incr ^^ k) (zip_ctor sto)))
       = map (\<lambda>xs. \<lparr>seq = xs, pos = k\<rparr>) (iterables sto)
   \<and> (zip_bool z \<longleftrightarrow>
        list_all2 (\<lambda>it xs. pos it \<noteq> length xs) (markers (zip_state z)) (iterables (storage z)))
   \<and> (zip_reachable sto r \<longrightarrow>
        (\<exists>n. markers (zip_state r) = map (\<lambda>xs. \<lparr>seq = xs, pos = n\<rparr>) (iterables sto))
        \<and> (zip_bool r \<longleftrightarrow> (\<forall>it\<in>set (markers (zip_state r)). pos it < length (seq it))))"
proof -
  have "markers (zip_state ((zip_incr ^^ k) (zip_ctor sto)))
       = map (\<lambda>xs. \<lparr>seq = xs, pos = k\<rparr>) (iterables sto)"
    by (simp add: zip_incr_funpow zip_ctor_def markers_reached)
  moreover have "zip_state (zip_incr z) = ZipState_incr (zip_state z)" "storage (zip_incr z) = storage z"
    by (simp_all add: zip_incr_def)
  ultimately show ?thesis
    using markers_incr [of st] zip_bool_markers [of z] zip_reachable_bool [of sto r] by blast
qed

theorem zip_markers_lockstep_witness:
  "zip_reachable (ZipStorageN [1, 2, 3 :: int] (ZipStorage1 [7, 8]))
     (zip_incr (zip_ctor (ZipStorageN [1, 2, 3 :: int] (ZipStorage1 [7, 8]))))
   \<and> zip_bool (zip_incr (zip_ctor (ZipStorageN [1, 2, 3 :: int] (ZipStorage1 [7, 8]))))
   \<and> markers (zip_state (zip_incr (zip_ctor (ZipStorageN [1, 2, 3 :: int] (ZipStorage1 [7, 8])))))
       = [\<lparr>seq = [1, 2, 3], pos = 1\<rparr>, \<lparr>seq = [7, 8], pos = 1\<rparr>]"
proof -
  let ?sto = "ZipStorageN [1, 2, 3 :: int] (ZipStorage1 [7, 8])"
  have m: "markers (zip_state (zip_incr (zip_ctor ?sto)))
       = [\<lparr>seq = [1, 2, 3], pos = 1\<rparr>, \<lparr>seq = [7, 8], pos = 1\<rparr>]"
    by (simp add: zip_incr_def zip_ctor_def ZipStorage_begin_def std_begin_def iter_incr_def)
  have "zip_bool (zip_ctor ?sto)"
    by (simp add: zip_bool_def zip_ctor_def ZipStorage_begin_def ZipStorage_end_def
        std_begin_def std_end_def iter_neq_def)
  with zip_reachable_ctor [of ?sto] have r: "zip_reachable ?sto (zip_incr (zip_ctor ?sto))"
    by (rule zip_reachable_incr)
  from zip_markers_lockstep [where sto = ?sto and r = "zip_incr (zip_ctor ?sto)"] r
  have "zip_bool (zip_incr (zip_ctor ?sto))
     \<longleftrightarrow> (\<forall>it\<in>set (markers (zip_state (zip_incr (zip_ctor ?sto)))). pos it < length (seq it))"
    by blast
  then have "zip_bool (zip_incr (zip_ctor ?sto))" by (simp add: m)
  with r m show ?thesis by blast
qed

text \<open>
  C7. \<^verbatim>\<open>get<N>\<close> on an \<^verbatim>\<open>EnumerateState\<close> (arity 2; likewise \<^verbatim>\<open>EnumeratorState\<close>)
  with \<open>N \<ge> 2\<close>, and on the outermost \<^verbatim>\<open>ZipState\<close> of arity \<open>n\<close> with \<open>N \<ge> n\<close>,
  returns nothing (\<^verbatim>\<open>void\<close>): no branch of the \<^verbatim>\<open>if constexpr\<close> chain is taken and
  nothing fails. Within the arity it returns the index or the dereferenced marker.
\<close>
theorem get_beyond_arity_void:
  "EnumerateState_get 0 s = RetIdx (idx s)
   \<and> EnumerateState_get 1 s = iter_deref (iter s)
   \<and> (2 \<le> N \<longrightarrow> EnumerateState_get N s = RetVoid)
   \<and> (2 \<le> N \<longrightarrow> EnumeratorState_get N t = RetVoid)
   \<and> (N < ZipState_size st \<longrightarrow> ZipState_get N 0 st = iter_deref (markers st ! N))
   \<and> (ZipState_size st \<le> N \<longrightarrow> ZipState_get N 0 st = RetVoid)"
  by (simp add: EnumerateState_get_def EnumeratorState_get_def ZipState_get_markers
      ZipState_size_markers)

theorem get_beyond_arity_void_witness:
  "(2 :: nat) \<le> 2
   \<and> EnumerateState_get 2 (state (enumerate_ctor [1, 2, 3 :: int] 0)) = RetVoid
   \<and> EnumeratorState_get 2 (gen_state (EnumeratorImpl_ctor [1, 2, 3 :: int] 0)) = RetVoid
   \<and> ZipState_size (ZipState_ctor (ZipStorageN [1, 2, 3 :: int] (ZipStorage1 [7, 8]))) \<le> 2
   \<and> ZipState_get 2 0 (ZipState_ctor (ZipStorageN [1, 2, 3 :: int] (ZipStorage1 [7, 8]))) = RetVoid
   \<and> (1 :: nat) < ZipState_size (ZipState_ctor (ZipStorageN [1, 2, 3 :: int] (ZipStorage1 [7, 8])))
   \<and> ZipState_get 1 0 (ZipState_ctor (ZipStorageN [1, 2, 3 :: int] (ZipStorage1 [7, 8]))) = RetElem 7"
  using get_beyond_arity_void [where N = 2 and s = "state (enumerate_ctor [1, 2, 3 :: int] 0)"
      and t = "gen_state (EnumeratorImpl_ctor [1, 2, 3 :: int] 0)"
      and st = "ZipState_ctor (ZipStorageN [1, 2, 3 :: int] (ZipStorage1 [7, 8]))"]
    get_beyond_arity_void [where N = 1
      and st = "ZipState_ctor (ZipStorageN [1, 2, 3 :: int] (ZipStorage1 [7, 8]))"]
  by (simp add: ZipStorage_begin_def std_begin_def iter_deref_def)

lemma run_body_no_writes: "writes b = 0 \<Longrightarrow> snd (run_body b g) = g"
  by (cases b) simp_all

lemma run_calls_observers:
  assumes "writes hm = 0" and "writes cur = 0" and "Advance \<notin> set cs"
  shows "run_calls (gen_call hm cur adv) cs g = (map (\<lambda>c. fst (gen_call hm cur adv c g)) cs, g)"
  using assms(3)
proof (induction cs)
  case Nil
  then show ?case by simp
next
  case (Cons c cs)
  then have "c \<noteq> Advance" by auto
  then have "snd (gen_call hm cur adv c g) = g"
    using run_body_no_writes [OF assms(1), of g] run_body_no_writes [OF assms(2), of g]
    by (cases c) (simp_all add: gen_call_def case_prod_unfold)
  then show ?case using Cons by (simp add: case_prod_unfold)
qed

lemma operator_bodies_agree:
  "run_body RangeImpl_star_body g = (RangeImpl_deref g, g)"
  "run_body RangeImpl_bool_body g = (RangeImpl_bool g, g)"
  "snd (run_body RangeImpl_incr_body g) = RangeImpl_incr g"
  "run_body enumerate_star_body ge = (enumerate_deref ge, ge)"
  "run_body enumerate_bool_body ge = (enumerate_bool ge, ge)"
  "snd (run_body enumerate_incr_body ge) = enumerate_incr ge"
  "run_body zip_star_body gz = (zip_deref gz, gz)"
  "run_body zip_bool_body gz = (zip_bool gz, gz)"
  "snd (run_body zip_incr_body gz) = zip_incr gz"
  by (simp_all add: RangeImpl_star_body_def RangeImpl_bool_body_def RangeImpl_incr_body_def
      RangeImpl_deref_def RangeImpl_bool_def RangeImpl_incr_def
      enumerate_star_body_def enumerate_bool_body_def enumerate_incr_body_def
      enumerate_deref_def enumerate_bool_def enumerate_incr_def
      zip_star_body_def zip_bool_body_def zip_incr_body_def
      zip_deref_def zip_bool_def zip_incr_def)

lemma observer_bodies_no_writes:
  "writes RangeImpl_star_body = 0" "writes RangeImpl_bool_body = 0"
  "writes (enumerate_star_body :: ('a enumerate, 'a EnumerateState) body) = 0"
  "writes (enumerate_bool_body :: ('a enumerate, bool) body) = 0"
  "writes (zip_star_body :: ('a zip, 'a ZipState) body) = 0"
  "writes (zip_bool_body :: ('a zip, bool) body) = 0"
  by (simp_all add: RangeImpl_star_body_def RangeImpl_bool_body_def
      enumerate_star_body_def enumerate_bool_body_def zip_star_body_def zip_bool_body_def)

text \<open>
  C9. The bodies of \<^verbatim>\<open>operator*\<close> and \<^verbatim>\<open>operator bool\<close> of the range, enumerate
  and zip generators contain no assignment, and they compute what the loop reads
  (\<open>RangeImpl_deref\<close>, \<open>RangeImpl_bool\<close> and so on). So in every state "current" and
  "has more" return their reply and leave the generator as it was, and any sequence
  of such calls with no "advance" among them ends in the state it started in, every
  call in it getting the reply it would have got as the first call. An intervening
  "advance" runs the one body that assigns, and changes the reply: on
  \<^verbatim>\<open>range(2,11,3)\<close> "current" is 2 before it and 5 after it.
\<close>
theorem observers_idempotent:
  "range_call Current g = (Value (RangeImpl_deref g), g)
   \<and> range_call HasMore g = (Flag (RangeImpl_bool g), g)
   \<and> range_call Advance g = (Done, RangeImpl_incr g)
   \<and> enumerate_call Current ge = (Value (enumerate_deref ge), ge)
   \<and> enumerate_call HasMore ge = (Flag (enumerate_bool ge), ge)
   \<and> enumerate_call Advance ge = (Done, enumerate_incr ge)
   \<and> zip_call Current gz = (Value (zip_deref gz), gz)
   \<and> zip_call HasMore gz = (Flag (zip_bool gz), gz)
   \<and> zip_call Advance gz = (Done, zip_incr gz)
   \<and> (Advance \<notin> set cs \<longrightarrow>
        run_calls range_call cs g = (map (\<lambda>c. fst (range_call c g)) cs, g)
        \<and> run_calls enumerate_call cs ge = (map (\<lambda>c. fst (enumerate_call c ge)) cs, ge)
        \<and> run_calls zip_call cs gz = (map (\<lambda>c. fst (zip_call c gz)) cs, gz))
   \<and> run_calls range_call [Current, Advance, Current] (range3 2 11 3)
       = ([Value 2, Done, Value 5], RangeImpl_incr (range3 2 11 3))"
proof -
  have calls:
    "range_call Current g = (Value (RangeImpl_deref g), g)"
    "range_call HasMore g = (Flag (RangeImpl_bool g), g)"
    "range_call Advance g = (Done, RangeImpl_incr g)"
    "enumerate_call Current ge = (Value (enumerate_deref ge), ge)"
    "enumerate_call HasMore ge = (Flag (enumerate_bool ge), ge)"
    "enumerate_call Advance ge = (Done, enumerate_incr ge)"
    "zip_call Current gz = (Value (zip_deref gz), gz)"
    "zip_call HasMore gz = (Flag (zip_bool gz), gz)"
    "zip_call Advance gz = (Done, zip_incr gz)"
    for g ge gz
    by (simp_all add: range_call_def enumerate_call_def zip_call_def gen_call_def
        operator_bodies_agree)
  have runs: "run_calls range_call cs g = (map (\<lambda>c. fst (range_call c g)) cs, g)"
      "run_calls enumerate_call cs ge = (map (\<lambda>c. fst (enumerate_call c ge)) cs, ge)"
      "run_calls zip_call cs gz = (map (\<lambda>c. fst (zip_call c gz)) cs, gz)"
    if "Advance \<notin> set cs"
    unfolding range_call_def enumerate_call_def zip_call_def
    using that by (simp_all add: run_calls_observers observer_bodies_no_writes)
  have "run_calls range_call [Current, Advance, Current] (range3 2 11 3)
       = ([Value 2, Done, Value 5], RangeImpl_incr (range3 2 11 3))"
    by (simp add: calls)
      (simp add: RangeImpl_deref_def RangeImpl_incr_def range3_def RangeImpl_ctor_def)
  with calls runs show ?thesis by blast
qed

theorem observers_idempotent_witness:
  "Advance \<notin> set [Current, HasMore, Current, HasMore]
   \<and> run_calls range_call [Current, HasMore, Current, HasMore] (range3 2 11 3)
       = ([Value 2, Flag True, Value 2, Flag True], range3 2 11 3)"
proof -
  let ?cs = "[Current, HasMore, Current, HasMore]"
  let ?g = "range3 2 11 3"
  have h: "Advance \<notin> set ?cs" by simp
  have v: "RangeImpl_bool ?g" "RangeImpl_deref ?g = 2"
    by (simp_all add: range3_def RangeImpl_ctor_def RangeImpl_bool_def RangeImpl_deref_def
        word_sless_alt)
  from observers_idempotent [of ?g _ _ ?cs] h
  have run: "run_calls range_call ?cs ?g = (map (\<lambda>c. fst (range_call c ?g)) ?cs, ?g)"
    and cur: "range_call Current ?g = (Value (RangeImpl_deref ?g), ?g)"
    and more: "range_call HasMore ?g = (Flag (RangeImpl_bool ?g), ?g)"
    by blast+
  have "map (\<lambda>c. fst (range_call c ?g)) ?cs = [Value 2, Flag True, Value 2, Flag True]"
    by (simp add: cur more v)
  with run h show ?thesis by (simp only:) simp
qed

end
